theory Spec2Isabelle
  imports Main
begin

section \<open>Prepared-statement manager (psycopg/_preparing.py)\<close>

text \<open>
  Python \<open>bytes\<close> are modelled as \<open>string\<close>: an Isabelle \<open>char\<close> is one byte.
  A cache key is the pair (query text, tuple of parameter type oids); a cache value is
  the \<open>Union[int, bytes]\<close> of the source: a tally of executions or a statement name.
\<close>

type_synonym bytes = string

datatype Prepare = NO | YES | SHOULD

type_synonym Key = "bytes \<times> int list"

datatype Value = Count int | Name bytes

datatype error = KeyError | DataError | UnicodeEncodeError | UnicodeDecodeError | LookupError

text \<open>
  The libpq execution statuses (\<open>pq.ExecStatus\<close>) and the two attributes of a
  \<open>PGresult\<close> that the manager reads.
\<close>

datatype ExecStatus =
    EMPTY_QUERY | COMMAND_OK | TUPLES_OK | COPY_OUT | COPY_IN | BAD_RESPONSE
  | NONFATAL_ERROR | FATAL_ERROR | COPY_BOTH | SINGLE_TUPLE | PIPELINE_SYNC
  | PIPELINE_ABORTED

record PGresult =
  status :: ExecStatus
  command_status :: "bytes option"

record PostgresQuery =
  query :: bytes
  types :: "int list"

text \<open>
  The manager: the two class attributes and the two instance attributes.
  \<open>prepared\<close> is the \<open>OrderedDict\<close>, oldest entry first. \<open>prepared_idx\<close> starts
  at 0 and is only incremented or reset to 0, so it is a natural number.
\<close>

record PrepareManager =
  prepare_threshold :: "int option"
  prepared_max :: int
  prepared :: "(Key \<times> Value) list"
  prepared_idx :: nat

definition init :: "int option \<Rightarrow> int \<Rightarrow> PrepareManager" where
  "init threshold pmax =
     \<lparr>prepare_threshold = threshold, prepared_max = pmax, prepared = [], prepared_idx = 0\<rparr>"

subsection \<open>The OrderedDict operations used by the manager\<close>

definition od_contains :: "'k \<Rightarrow> ('k \<times> 'v) list \<Rightarrow> bool" where
  "od_contains k xs = (map_of xs k \<noteq> None)"

definition od_remove :: "'k \<Rightarrow> ('k \<times> 'v) list \<Rightarrow> ('k \<times> 'v) list" where
  "od_remove k xs = filter (\<lambda>kv. fst kv \<noteq> k) xs"

text \<open>\<open>d[k] = v\<close>: an existing key keeps its position, a new key goes last.\<close>

fun od_set :: "'k \<Rightarrow> 'v \<Rightarrow> ('k \<times> 'v) list \<Rightarrow> ('k \<times> 'v) list" where
  "od_set k v [] = [(k, v)]"
| "od_set k v ((k', v') # xs) = (if k' = k then (k, v) # xs else (k', v') # od_set k v xs)"

text \<open>
  \<open>d.move_to_end(k)\<close>. The manager calls it only under \<open>if key in self._prepared\<close>;
  on an absent key (where Python raises KeyError) the model leaves the dictionary as it is.
\<close>

definition od_move_to_end :: "'k \<Rightarrow> ('k \<times> 'v) list \<Rightarrow> ('k \<times> 'v) list" where
  "od_move_to_end k xs =
     (case map_of xs k of
        None \<Rightarrow> xs
      | Some v \<Rightarrow> od_remove k xs @ [(k, v)])"

text \<open>\<open>del d[k]\<close> raises KeyError on an absent key.\<close>

definition od_del :: "'k \<Rightarrow> ('k \<times> 'v) list \<Rightarrow> error + ('k \<times> 'v) list" where
  "od_del k xs = (if od_contains k xs then Inr (od_remove k xs) else Inl KeyError)"

text \<open>\<open>d.popitem(last=False)\<close> raises KeyError on an empty dictionary.\<close>

definition od_popitem_first :: "('k \<times> 'v) list \<Rightarrow> error + (('k \<times> 'v) \<times> ('k \<times> 'v) list)" where
  "od_popitem_first xs = (case xs of [] \<Rightarrow> Inl KeyError | kv # rest \<Rightarrow> Inr (kv, rest))"

subsection \<open>Statement names\<close>

text \<open>\<open>str(n)\<close> for a natural number, and the name \<open>f"_pg3_{idx}".encode()\<close>.\<close>

definition digit_char :: "nat \<Rightarrow> char" where
  "digit_char d = ''0123456789'' ! d"

fun decimal :: "nat \<Rightarrow> string" where
  "decimal n = (if n < 10 then [digit_char n] else decimal (n div 10) @ [digit_char (n mod 10)])"

declare decimal.simps [simp del]

definition stmt_name :: "nat \<Rightarrow> bytes" where
  "stmt_name idx = ''_pg3_'' @ decimal idx"

subsection \<open>The methods\<close>

definition key :: "PostgresQuery \<Rightarrow> Key" where
  "key q = (query q, types q)"

text \<open>
  \<open>get\<close>: the argument \<open>prepare\<close> is \<open>Optional[bool]\<close>. The cache is read with
  \<open>self._prepared.get(key, 0)\<close>, which does not reorder it; the only attribute written
  is the counter.
\<close>

definition get :: "PostgresQuery \<Rightarrow> bool option \<Rightarrow> PrepareManager
    \<Rightarrow> (Prepare \<times> bytes) \<times> PrepareManager" where
  "get q prepare self =
     (case prepare_threshold self of
        None \<Rightarrow> ((NO, []), self)
      | Some threshold \<Rightarrow>
          if prepare = Some False then ((NO, []), self)
          else
            (case (case map_of (prepared self) (key q) of None \<Rightarrow> Count 0 | Some v \<Rightarrow> v) of
               Name n \<Rightarrow> ((YES, n), self)
             | Count v \<Rightarrow>
                 if v \<ge> threshold \<or> prepare = Some True
                 then ((SHOULD, stmt_name (prepared_idx self)),
                       self\<lparr>prepared_idx := prepared_idx self + 1\<rparr>)
                 else ((NO, []), self)))"

definition clear :: "PrepareManager \<Rightarrow> bytes option \<times> PrepareManager" where
  "clear self =
     (if prepared_idx self \<noteq> 0
      then (Some ''DEALLOCATE ALL'', self\<lparr>prepared := [], prepared_idx := 0\<rparr>)
      else (None, self))"

definition startswith :: "bytes \<Rightarrow> bytes \<Rightarrow> bool" where
  "startswith s p = (take (length p) s = p)"

text \<open>The test made on one result inside the loop of \<open>_should_discard\<close>.\<close>

definition discards :: "PGresult \<Rightarrow> bool" where
  "discards r =
     (status r = COMMAND_OK \<and>
      (case command_status r of
         None \<Rightarrow> False
       | Some cmdstat \<Rightarrow>
           cmdstat \<noteq> [] \<and> (startswith cmdstat ''DROP '' \<or> cmdstat = ''ROLLBACK'')))"

fun should_discard_loop :: "PGresult list \<Rightarrow> PrepareManager \<Rightarrow> bytes option \<times> PrepareManager" where
  "should_discard_loop [] self = (None, self)"
| "should_discard_loop (r # rs) self =
     (if discards r then clear self else should_discard_loop rs self)"

definition should_discard :: "Prepare \<Rightarrow> PGresult list \<Rightarrow> PrepareManager
    \<Rightarrow> bytes option \<times> PrepareManager" where
  "should_discard prep results self =
     (if prepared self \<noteq> [] \<or> prep = SHOULD then should_discard_loop results self
      else (None, self))"

definition check_results :: "PGresult list \<Rightarrow> bool" where
  "check_results results =
     (case results of
        [r] \<Rightarrow> \<not> (status r \<noteq> COMMAND_OK \<and> status r \<noteq> TUPLES_OK)
      | _ \<Rightarrow> False)"

text \<open>\<open>_rotate\<close>: evicts the first entry of the dictionary when it is over the maximum.\<close>

definition pm_rotate :: "PrepareManager \<Rightarrow> error + (bytes option \<times> PrepareManager)" where
  "pm_rotate self =
     (if int (length (prepared self)) \<le> prepared_max self then Inr (None, self)
      else
        (case od_popitem_first (prepared self) of
           Inl e \<Rightarrow> Inl e
         | Inr (kv, rest) \<Rightarrow>
             (case snd kv of
                Name old_val \<Rightarrow> Inr (Some (''DEALLOCATE '' @ old_val), self\<lparr>prepared := rest\<rparr>)
              | Count _ \<Rightarrow> Inr (None, self\<lparr>prepared := rest\<rparr>))))"

definition maybe_add_to_cache :: "PostgresQuery \<Rightarrow> Prepare \<Rightarrow> bytes \<Rightarrow> PrepareManager
    \<Rightarrow> Key option \<times> PrepareManager" where
  "maybe_add_to_cache q prep name self =
     (case prepare_threshold self of
        None \<Rightarrow> (None, self)
      | Some _ \<Rightarrow>
          (case map_of (prepared self) (key q) of
             Some old \<Rightarrow>
               (let d = (case old of
                           Count c \<Rightarrow>
                             if prep = SHOULD then od_set (key q) (Name name) (prepared self)
                             else od_set (key q) (Count (c + 1)) (prepared self)
                         | Name _ \<Rightarrow> prepared self)
                in (None, self\<lparr>prepared := od_move_to_end (key q) d\<rparr>))
           | None \<Rightarrow>
               (Some (key q),
                self\<lparr>prepared :=
                  od_set (key q) (if prep = SHOULD then Name name else Count 1) (prepared self)\<rparr>)))"

definition validate :: "Key \<Rightarrow> Prepare \<Rightarrow> bytes \<Rightarrow> PGresult list \<Rightarrow> PrepareManager
    \<Rightarrow> error + (bytes option \<times> PrepareManager)" where
  "validate k prep name results self =
     (case should_discard prep results self of
        (cmd, self1) \<Rightarrow>
          if cmd \<noteq> None \<and> cmd \<noteq> Some [] then Inr (cmd, self1)
          else if \<not> check_results results then
            (case od_del k (prepared self1) of
               Inl e \<Rightarrow> Inl e
             | Inr d \<Rightarrow> Inr (None, self1\<lparr>prepared := d\<rparr>))
          else pm_rotate self1)"

subsection \<open>Sequences of calls\<close>

text \<open>
  One call on the manager and what it gave back, to state properties of whole call
  sequences. \<open>run\<close> stops at the first exception, as the caller would.
\<close>

datatype call =
    Get PostgresQuery "bool option"
  | MaybeAdd PostgresQuery Prepare bytes
  | Validate Key Prepare bytes "PGresult list"
  | Clear

datatype outcome =
    Decision Prepare bytes
  | Added "Key option"
  | Directive "bytes option"

fun exec_call :: "call \<Rightarrow> PrepareManager \<Rightarrow> error + (outcome \<times> PrepareManager)" where
  "exec_call (Get q prepare) self =
     (case get q prepare self of ((prep, name), self') \<Rightarrow> Inr (Decision prep name, self'))"
| "exec_call (MaybeAdd q prep name) self =
     (case maybe_add_to_cache q prep name self of (k, self') \<Rightarrow> Inr (Added k, self'))"
| "exec_call (Validate k prep name results) self =
     (case validate k prep name results self of
        Inl e \<Rightarrow> Inl e
      | Inr (cmd, self') \<Rightarrow> Inr (Directive cmd, self'))"
| "exec_call Clear self = (case clear self of (cmd, self') \<Rightarrow> Inr (Directive cmd, self'))"

fun run :: "call list \<Rightarrow> PrepareManager \<Rightarrow> error + (outcome list \<times> PrepareManager)" where
  "run [] self = Inr ([], self)"
| "run (c # cs) self =
     (case exec_call c self of
        Inl e \<Rightarrow> Inl e
      | Inr (out, self') \<Rightarrow>
          (case run cs self' of
             Inl e \<Rightarrow> Inl e
           | Inr (outs, self'') \<Rightarrow> Inr (out # outs, self'')))"

text \<open>The statement names handed out by \<open>get\<close> in a sequence of outcomes.\<close>

fun names_of :: "outcome list \<Rightarrow> bytes list" where
  "names_of [] = []"
| "names_of (Decision SHOULD name # outs) = name # names_of outs"
| "names_of (_ # outs) = names_of outs"

text \<open>
  The number of \<open>maybe_add_to_cache\<close> calls not yet followed by a \<open>validate\<close>,
  starting from \<open>p\<close>.
\<close>

fun pending :: "call list \<Rightarrow> nat \<Rightarrow> nat" where
  "pending [] p = p"
| "pending (MaybeAdd _ _ _ # cs) p = pending cs (p + 1)"
| "pending (Validate _ _ _ _ # cs) p = pending cs (p - 1)"
| "pending (_ # cs) p = pending cs p"

text \<open>
  A statement submitted in pipeline mode: the decision of \<open>get\<close> (with the default
  \<open>prepare=None\<close>) is recorded at once with \<open>maybe_add_to_cache\<close>.
  \<open>decisions n q\<close> are the decisions of \<open>n\<close> such submissions of the same query.
\<close>

definition submit :: "PostgresQuery \<Rightarrow> PrepareManager \<Rightarrow> (Prepare \<times> bytes) \<times> PrepareManager" where
  "submit q self =
     (case get q None self of
        ((prep, name), self1) \<Rightarrow> ((prep, name), snd (maybe_add_to_cache q prep name self1)))"

fun decisions :: "nat \<Rightarrow> PostgresQuery \<Rightarrow> PrepareManager \<Rightarrow> (Prepare \<times> bytes) list" where
  "decisions 0 q self = []"
| "decisions (Suc n) q self =
     (case submit q self of (d, self') \<Rightarrow> d # decisions n q self')"

section \<open>Adapters for textual types (psycopg3/types/string.py)\<close>

text \<open>
  A Python \<open>str\<close> is a sequence of code points, each below \<open>0x110000\<close>; lone
  surrogates are allowed in a \<open>str\<close>. A buffer is \<open>bytes\<close>, \<open>bytearray\<close> or
  \<open>memoryview\<close>.
\<close>

type_synonym str = "nat list"

datatype Buffer = Bytes bytes | Bytearray bytes | Memoryview bytes

fun buffer_bytes :: "Buffer \<Rightarrow> bytes" where
  "buffer_bytes (Bytes b) = b"
| "buffer_bytes (Bytearray b) = b"
| "buffer_bytes (Memoryview b) = b"

definition is_str :: "str \<Rightarrow> bool" where
  "is_str s = list_all (\<lambda>c. c < 0x110000) s"

subsection \<open>The codecs of the Python runtime\<close>

text \<open>
  \<open>str.encode(name)\<close> and \<open>bytes.decode(name)\<close>, with the default strict error
  handling, look the name up in the codec registry of the Python runtime and run the codec
  found. A codec is its pair of functions; the registry (\<open>codecs.lookup\<close>) is a parameter
  of everything below, an unknown name being a LookupError. Three codecs are written out:
  UTF-8 (which refuses surrogates, overlong forms and values past \<open>0x10FFFF\<close>), Latin-1
  and ASCII.
\<close>

definition is_surrogate :: "nat \<Rightarrow> bool" where
  "is_surrogate c = (0xD800 \<le> c \<and> c \<le> 0xDFFF)"

definition utf8_encode_cp :: "nat \<Rightarrow> nat list option" where
  "utf8_encode_cp c =
     (if c < 0x80 then Some [c]
      else if c < 0x800 then Some [0xC0 + c div 64, 0x80 + c mod 64]
      else if c < 0x10000 then
        (if is_surrogate c then None
         else Some [0xE0 + c div 4096, 0x80 + (c div 64) mod 64, 0x80 + c mod 64])
      else if c < 0x110000 then
        Some [0xF0 + c div 262144, 0x80 + (c div 4096) mod 64, 0x80 + (c div 64) mod 64,
              0x80 + c mod 64]
      else None)"

fun utf8_encode_nat :: "str \<Rightarrow> nat list option" where
  "utf8_encode_nat [] = Some []"
| "utf8_encode_nat (c # cs) =
     (case utf8_encode_cp c of
        None \<Rightarrow> None
      | Some bs \<Rightarrow> (case utf8_encode_nat cs of None \<Rightarrow> None | Some r \<Rightarrow> Some (bs @ r)))"

definition utf8_encode :: "str \<Rightarrow> error + bytes" where
  "utf8_encode s =
     (case utf8_encode_nat s of
        None \<Rightarrow> Inl UnicodeEncodeError
      | Some bs \<Rightarrow> Inr (map char_of bs))"

definition is_cont :: "nat \<Rightarrow> bool" where
  "is_cont b = (0x80 \<le> b \<and> b < 0xC0)"

fun utf8_decode_nat :: "nat list \<Rightarrow> str option" where
  "utf8_decode_nat [] = Some []"
| "utf8_decode_nat (b0 # bs) =
     (if b0 < 0x80 then map_option ((#) b0) (utf8_decode_nat bs)
      else if 0xC2 \<le> b0 \<and> b0 < 0xE0 then
        (case bs of
           b1 # r \<Rightarrow>
             if is_cont b1
             then map_option ((#) ((b0 - 0xC0) * 64 + (b1 - 0x80))) (utf8_decode_nat r)
             else None
         | _ \<Rightarrow> None)
      else if 0xE0 \<le> b0 \<and> b0 < 0xF0 then
        (case bs of
           b1 # b2 # r \<Rightarrow>
             (let c = (b0 - 0xE0) * 4096 + (b1 - 0x80) * 64 + (b2 - 0x80)
              in if is_cont b1 \<and> is_cont b2 \<and> 0x800 \<le> c \<and> \<not> is_surrogate c
                 then map_option ((#) c) (utf8_decode_nat r)
                 else None)
         | _ \<Rightarrow> None)
      else if 0xF0 \<le> b0 \<and> b0 < 0xF5 then
        (case bs of
           b1 # b2 # b3 # r \<Rightarrow>
             (let c = (b0 - 0xF0) * 262144 + (b1 - 0x80) * 4096 + (b2 - 0x80) * 64 + (b3 - 0x80)
              in if is_cont b1 \<and> is_cont b2 \<and> is_cont b3 \<and> 0x10000 \<le> c \<and> c < 0x110000
                 then map_option ((#) c) (utf8_decode_nat r)
                 else None)
         | _ \<Rightarrow> None)
      else None)"

definition utf8_decode :: "bytes \<Rightarrow> error + str" where
  "utf8_decode b =
     (case utf8_decode_nat (map of_char b) of
        None \<Rightarrow> Inl UnicodeDecodeError
      | Some s \<Rightarrow> Inr s)"

definition ascii_encode :: "str \<Rightarrow> error + bytes" where
  "ascii_encode s =
     (if list_all (\<lambda>c. c < 0x80) s then Inr (map char_of s) else Inl UnicodeEncodeError)"

definition ascii_decode :: "bytes \<Rightarrow> error + str" where
  "ascii_decode b =
     (if list_all (\<lambda>c. (of_char c :: nat) < 0x80) b then Inr (map of_char b)
      else Inl UnicodeDecodeError)"



record codec =
  encode :: "str \<Rightarrow> error + bytes"
  decode :: "bytes \<Rightarrow> error + str"

type_synonym registry = "string \<Rightarrow> codec option"

definition utf8_codec :: codec where
  "utf8_codec = \<lparr>encode = utf8_encode, decode = utf8_decode\<rparr>"


definition ascii_codec :: codec where
  "ascii_codec = \<lparr>encode = ascii_encode, decode = ascii_decode\<rparr>"

definition str_encode :: "registry \<Rightarrow> string \<Rightarrow> str \<Rightarrow> error + bytes" where
  "str_encode reg encoding s =
     (case reg encoding of None \<Rightarrow> Inl LookupError | Some cd \<Rightarrow> encode cd s)"

definition bytes_decode :: "registry \<Rightarrow> string \<Rightarrow> bytes \<Rightarrow> error + str" where
  "bytes_decode reg encoding b =
     (case reg encoding of None \<Rightarrow> Inl LookupError | Some cd \<Rightarrow> decode cd b)"

subsection \<open>Dumpers and loaders\<close>

text \<open>
  A dumper or loader reads one thing from its context: the connection, if any, and its
  \<open>client_encoding\<close>, the name of a Python codec. The constructors compute the attribute
  \<open>_encoding\<close>; \<open>dump\<close> and \<open>load\<close> take it, and the codec registry, as arguments.
\<close>

record Connection =
  client_encoding :: string

definition StrDumper_init :: "Connection option \<Rightarrow> string" where
  "StrDumper_init conn =
     (case conn of
        None \<Rightarrow> ''utf-8''
      | Some c \<Rightarrow> if client_encoding c \<noteq> ''ascii'' then client_encoding c else ''utf-8'')"

definition StrBinaryDumper_dump :: "registry \<Rightarrow> string \<Rightarrow> str \<Rightarrow> error + bytes" where
  "StrBinaryDumper_dump reg encoding obj = str_encode reg encoding obj"

definition StrDumper_dump :: "registry \<Rightarrow> string \<Rightarrow> str \<Rightarrow> error + bytes" where
  "StrDumper_dump reg encoding obj =
     (if 0 \<in> set obj then Inl DataError else str_encode reg encoding obj)"

definition TextLoader_init :: "Connection option \<Rightarrow> string" where
  "TextLoader_init conn =
     (case conn of
        None \<Rightarrow> ''utf-8''
      | Some c \<Rightarrow> if client_encoding c \<noteq> ''ascii'' then client_encoding c else [])"

text \<open>\<open>load\<close> returns \<open>Union[bytes, str]\<close>: the buffer itself, or the decoded text.\<close>

datatype loaded = Raw Buffer | Text str

definition TextLoader_load :: "registry \<Rightarrow> string \<Rightarrow> Buffer \<Rightarrow> error + loaded" where
  "TextLoader_load reg encoding data =
     (if encoding \<noteq> [] then
        (case bytes_decode reg encoding (buffer_bytes data) of
           Inl e \<Rightarrow> Inl e
         | Inr s \<Rightarrow> Inr (Text s))
      else Inr (Raw data))"

text \<open>\<open>TextBinaryLoader\<close> inherits \<open>__init__\<close> and \<open>load\<close> from \<open>TextLoader\<close>.\<close>

definition TextBinaryLoader_load :: "registry \<Rightarrow> string \<Rightarrow> Buffer \<Rightarrow> error + loaded" where
  "TextBinaryLoader_load = TextLoader_load"

definition BytesBinaryDumper_dump :: "Buffer \<Rightarrow> Buffer" where
  "BytesBinaryDumper_dump obj = obj"

definition ByteaBinaryLoader_load :: "Buffer \<Rightarrow> Buffer" where
  "ByteaBinaryLoader_load data = data"

section \<open>Properties of the OrderedDict operations\<close>

lemma map_of_od_set: "map_of (od_set k v xs) k' = (if k' = k then Some v else map_of xs k')"
  by (induction xs) auto

lemma od_set_absent: "map_of xs k = None \<Longrightarrow> od_set k v xs = xs @ [(k, v)]"
  by (induction xs) (auto split: if_splits)

lemma od_set_keys: "map_of xs k = Some v' \<Longrightarrow> map fst (od_set k v xs) = map fst xs"
  by (induction xs) (auto split: if_splits)

lemma length_od_set: "length (od_set k v xs) \<le> length xs + 1"
  by (induction xs) auto

lemma od_set_length_present: "map_of xs k = Some v' \<Longrightarrow> length (od_set k v xs) = length xs"
  by (induction xs) (auto split: if_splits)

lemma map_of_od_remove: "map_of (od_remove k xs) k' = (if k' = k then None else map_of xs k')"
  by (induction xs) (auto simp: od_remove_def)

lemma length_od_remove: "map_of xs k = Some v \<Longrightarrow> length (od_remove k xs) < length xs"
  unfolding od_remove_def
  by (induction xs) (auto split: if_splits simp: less_Suc_eq_le)

lemma od_remove_keys: "map fst (od_remove k xs) = filter (\<lambda>k'. k' \<noteq> k) (map fst xs)"
  by (induction xs) (auto simp: od_remove_def)

lemma map_of_od_move_to_end: "map_of (od_move_to_end k xs) k' = map_of xs k'"
  by (auto simp: od_move_to_end_def map_of_od_remove map_add_def split: option.splits)

lemma length_od_move_to_end: "length (od_move_to_end k xs) \<le> length xs"
  using length_od_remove [of xs k]
  by (auto simp: od_move_to_end_def split: option.splits simp: Suc_le_eq)

lemma od_move_to_end_keys:
  "map_of xs k = Some v \<Longrightarrow> map fst (od_move_to_end k xs) = filter (\<lambda>k'. k' \<noteq> k) (map fst xs) @ [k]"
  by (simp add: od_move_to_end_def od_remove_keys)

section \<open>Properties of the prepared-statement manager\<close>

subsection \<open>Cache-wide invalidation\<close>

lemma should_discard_loop_fires:
  "r \<in> set results \<Longrightarrow> discards r \<Longrightarrow> should_discard_loop results self = clear self"
  by (induction results) auto

lemma should_discard_loop_cases:
  "should_discard_loop results self = (None, self) \<or> should_discard_loop results self = clear self"
  by (induction results) auto

lemma should_discard_cases:
  "should_discard prep results self = (None, self)
   \<or> (prepared_idx self \<noteq> 0 \<and>
      should_discard prep results self =
        (Some ''DEALLOCATE ALL'', self\<lparr>prepared := [], prepared_idx := 0\<rparr>))"
  using should_discard_loop_cases [of results self]
  by (cases "prepared_idx self = 0") (auto simp: should_discard_def clear_def)

lemma discards_iff:
  "status r = COMMAND_OK \<Longrightarrow> command_status r = Some c \<Longrightarrow>
   startswith c ''DROP '' \<or> c = ''ROLLBACK'' \<Longrightarrow> discards r"
  by (auto simp: discards_def startswith_def)

text \<open>
  C3, as the code has it. When \<open>validate\<close> is called with a non-empty cache (or for a
  decision \<open>SHOULD\<close>) and some result is a successful command whose status starts with
  \<open>DROP \<close> or is \<open>ROLLBACK\<close>, then: if a statement name has been generated since the last
  clear (\<open>prepared_idx\<close> is not 0), the whole cache is emptied, the counter is reset and
  the directive is \<open>DEALLOCATE ALL\<close>, whatever the key; if no name has been generated,
  the discard step changes nothing and gives no directive.
\<close>

theorem validate_discard:
  assumes "prepared self \<noteq> [] \<or> prep = SHOULD"
    and "r \<in> set results" and "status r = COMMAND_OK" and "command_status r = Some c"
    and "startswith c ''DROP '' \<or> c = ''ROLLBACK''"
  shows "(prepared_idx self \<noteq> 0 \<longrightarrow>
            validate k prep name results self =
              Inr (Some ''DEALLOCATE ALL'', self\<lparr>prepared := [], prepared_idx := 0\<rparr>))
         \<and> (prepared_idx self = 0 \<longrightarrow> should_discard prep results self = (None, self))"
proof -
  have "discards r" using assms(3-5) by (rule discards_iff)
  then have "should_discard_loop results self = clear self"
    using assms(2) by (simp add: should_discard_loop_fires)
  then have "should_discard prep results self = clear self"
    using assms(1) by (auto simp: should_discard_def)
  then show ?thesis by (simp add: validate_def clear_def)
qed

theorem validate_discard_witness:
  "validate (''drop table t'', []) SHOULD ''_pg3_0''
     [\<lparr>status = COMMAND_OK, command_status = Some ''DROP TABLE''\<rparr>]
     \<lparr>prepare_threshold = Some 5, prepared_max = 100,
      prepared = [((''drop table t'', []), Name ''_pg3_0''), ((''select 1'', []), Count 2)],
      prepared_idx = 1\<rparr>
   = Inr (Some ''DEALLOCATE ALL'',
      \<lparr>prepare_threshold = Some 5, prepared_max = 100, prepared = [], prepared_idx = 0\<rparr>)"
  using validate_discard [of
     "\<lparr>prepare_threshold = Some 5, prepared_max = 100,
      prepared = [((''drop table t'', []), Name ''_pg3_0''), ((''select 1'', []), Count 2)],
      prepared_idx = 1\<rparr>" SHOULD
     "\<lparr>status = COMMAND_OK, command_status = Some ''DROP TABLE''\<rparr>"
     "[\<lparr>status = COMMAND_OK, command_status = Some ''DROP TABLE''\<rparr>]"
     "''DROP TABLE''" "(''drop table t'', [])" "''_pg3_0''"]
  by (simp add: startswith_def)

text \<open>
  C3 as stated fails: with a cache holding one tally and no name generated yet, a
  \<open>DROP TABLE\<close> result leaves the cache as it is and \<open>validate\<close> returns nothing.
\<close>

theorem validate_discard_counterexample:
  "validate (''select 1'', []) NO []
     [\<lparr>status = COMMAND_OK, command_status = Some ''DROP TABLE''\<rparr>]
     \<lparr>prepare_threshold = Some 5, prepared_max = 100,
      prepared = [((''select 1'', []), Count 1)], prepared_idx = 0\<rparr>
   = Inr (None,
     \<lparr>prepare_threshold = Some 5, prepared_max = 100,
      prepared = [((''select 1'', []), Count 1)], prepared_idx = 0\<rparr>)"
  by (simp add: validate_def should_discard_def discards_def startswith_def clear_def
      check_results_def pm_rotate_def)

subsection \<open>Exceptions out of validate\<close>

text \<open>
  C6: \<open>validate\<close> should never raise. It does: two statements are submitted in a
  pipeline, the results of the first carry \<open>DROP TABLE\<close> and wipe the cache, and the
  second statement failed, so \<open>validate\<close> runs \<open>del self._prepared[key]\<close> on a key that
  is no longer there.
\<close>

theorem validate_keyerror:
  "run [Get \<lparr>query = ''drop table t'', types = []\<rparr> (Some True),
        MaybeAdd \<lparr>query = ''drop table t'', types = []\<rparr> SHOULD ''_pg3_0'',
        Get \<lparr>query = ''select 1'', types = []\<rparr> None,
        MaybeAdd \<lparr>query = ''select 1'', types = []\<rparr> NO [],
        Validate (''drop table t'', []) SHOULD ''_pg3_0''
          [\<lparr>status = COMMAND_OK, command_status = Some ''DROP TABLE''\<rparr>],
        Validate (''select 1'', []) NO []
          [\<lparr>status = FATAL_ERROR, command_status = None\<rparr>]]
       (init (Some 5) 100)
   = Inl KeyError"
  by code_simp

subsection \<open>Promotion after the threshold\<close>

lemma submit_no:
  assumes "prepare_threshold self = Some th"
    and "(map_of (prepared self) (key q) = None \<and> v = 0) \<or> map_of (prepared self) (key q) = Some (Count v)"
    and "v < th"
  shows "\<exists>self'. submit q self = ((NO, []), self') \<and> prepare_threshold self' = Some th
           \<and> prepared_idx self' = prepared_idx self
           \<and> map_of (prepared self') (key q) = Some (Count (v + 1))"
  using assms
  by (auto simp: submit_def get_def maybe_add_to_cache_def map_of_od_set map_of_od_move_to_end)

lemma submit_should:
  assumes "prepare_threshold self = Some th"
    and "(map_of (prepared self) (key q) = None \<and> v = 0) \<or> map_of (prepared self) (key q) = Some (Count v)"
    and "th \<le> v"
  shows "\<exists>self'. submit q self = ((SHOULD, stmt_name (prepared_idx self)), self')
           \<and> prepare_threshold self' = Some th
           \<and> map_of (prepared self') (key q) = Some (Name (stmt_name (prepared_idx self)))"
  using assms
  by (auto simp: submit_def get_def maybe_add_to_cache_def map_of_od_set map_of_od_move_to_end)

lemma submit_yes:
  assumes "prepare_threshold self = Some th"
    and "map_of (prepared self) (key q) = Some (Name n)"
  shows "\<exists>self'. submit q self = ((YES, n), self')
           \<and> prepare_threshold self' = Some th
           \<and> map_of (prepared self') (key q) = Some (Name n)"
  using assms
  by (auto simp: submit_def get_def maybe_add_to_cache_def map_of_od_set map_of_od_move_to_end)

lemma decisions_yes:
  "prepare_threshold self = Some th \<Longrightarrow> map_of (prepared self) (key q) = Some (Name n) \<Longrightarrow>
   decisions m q self = replicate m (YES, n)"
proof (induction m arbitrary: self)
  case 0
  then show ?case by simp
next
  case (Suc m)
  from submit_yes [OF Suc.prems] obtain self' where
    s: "submit q self = ((YES, n), self')" "prepare_threshold self' = Some th"
       "map_of (prepared self') (key q) = Some (Name n)" by blast
  show ?case using s Suc.IH [OF s(2,3)] by simp
qed

lemma decisions_tally:
  assumes "prepare_threshold self = Some th"
    and "(map_of (prepared self) (key q) = None \<and> v = 0) \<or> map_of (prepared self) (key q) = Some (Count v)"
    and "v + int n = th"
  shows "decisions (n + 1 + m) q self =
           replicate n (NO, []) @ [(SHOULD, stmt_name (prepared_idx self))]
           @ replicate m (YES, stmt_name (prepared_idx self))"
  using assms
proof (induction n arbitrary: self v)
  case 0
  then have "th \<le> v" by simp
  from submit_should [OF "0.prems"(1,2) this] obtain self' where
    s: "submit q self = ((SHOULD, stmt_name (prepared_idx self)), self')"
       "prepare_threshold self' = Some th"
       "map_of (prepared self') (key q) = Some (Name (stmt_name (prepared_idx self)))" by blast
  show ?case using s decisions_yes [OF s(2,3), of m] by simp
next
  case (Suc n)
  then have "v < th" by simp
  from submit_no [OF Suc.prems(1,2) this] obtain self' where
    s: "submit q self = ((NO, []), self')" "prepare_threshold self' = Some th"
       "prepared_idx self' = prepared_idx self"
       "map_of (prepared self') (key q) = Some (Count (v + 1))" by blast
  have "(v + 1) + int n = th" using Suc.prems(3) by simp
  from Suc.IH [OF s(2) disjI2 [OF s(4)] this] s(1,3)
  show ?case by simp
qed

text \<open>
  C1, as the code has it. For a query whose key is not in the cache, a threshold \<open>t\<close>
  and submissions that record each decision of \<open>get\<close> with \<open>maybe_add_to_cache\<close> before
  the next one: the first \<open>t\<close> decisions are \<open>NO\<close>, decision \<open>t + 1\<close> is \<open>SHOULD\<close> with
  the next fresh name, and every later decision is \<open>YES\<close> with that same name.
\<close>

theorem decisions_threshold:
  assumes "prepare_threshold self = Some (int t)"
    and "map_of (prepared self) (key q) = None"
  shows "decisions (t + 1 + m) q self =
           replicate t (NO, []) @ [(SHOULD, stmt_name (prepared_idx self))]
           @ replicate m (YES, stmt_name (prepared_idx self))"
  using decisions_tally [of self "int t" q 0 t m] assms by simp

theorem decisions_threshold_witness:
  "decisions 8 \<lparr>query = ''select 1'', types = []\<rparr> (init (Some 5) 100)
   = [(NO, []), (NO, []), (NO, []), (NO, []), (NO, []), (SHOULD, ''_pg3_0''),
      (YES, ''_pg3_0''), (YES, ''_pg3_0'')]"
  using decisions_threshold [of "init (Some 5) 100" 5 "\<lparr>query = ''select 1'', types = []\<rparr>" 2]
  by (simp add: init_def key_def stmt_name_def decimal.simps digit_char_def numeral_eq_Suc)

text \<open>
  C1 as stated fails: with threshold 5 the fifth decision is still \<open>NO\<close>; the query is
  prepared at its sixth submission.
\<close>

theorem threshold_counterexample:
  "decisions 6 \<lparr>query = ''select 1'', types = []\<rparr> (init (Some 5) 100)
   = [(NO, []), (NO, []), (NO, []), (NO, []), (NO, []), (SHOULD, ''_pg3_0'')]"
  by code_simp

subsection \<open>Size of the cache\<close>

lemma get_prepared: "prepared (snd (get q prepare self)) = prepared self"
  by (simp add: get_def split: option.splits Value.splits)

lemma get_fixed:
  "prepared_max (snd (get q prepare self)) = prepared_max self
   \<and> prepare_threshold (snd (get q prepare self)) = prepare_threshold self"
  by (simp add: get_def split: option.splits Value.splits)

lemma maybe_add_to_cache_length:
  "length (prepared (snd (maybe_add_to_cache q prep name self))) \<le> length (prepared self) + 1"
proof (cases "prepare_threshold self")
  case None
  then show ?thesis by (simp add: maybe_add_to_cache_def)
next
  case (Some th)
  show ?thesis
  proof (cases "map_of (prepared self) (key q)")
    case None
    then show ?thesis using Some length_od_set [of "key q" _ "prepared self"]
      by (simp add: maybe_add_to_cache_def)
  next
    case (Some old)
    have "length (od_move_to_end (key q) d) \<le> length (prepared self) + 1"
      if "length d = length (prepared self)" for d :: "(Key \<times> Value) list"
      using that length_od_move_to_end [of "key q" d] by simp
    then show ?thesis using Some \<open>prepare_threshold self = Some th\<close>
      by (cases old) (simp_all add: maybe_add_to_cache_def od_set_length_present)
  qed
qed

lemma maybe_add_to_cache_fixed:
  "prepared_max (snd (maybe_add_to_cache q prep name self)) = prepared_max self
   \<and> prepared_idx (snd (maybe_add_to_cache q prep name self)) = prepared_idx self"
  by (simp add: maybe_add_to_cache_def Let_def split: option.splits Value.splits)

lemma clear_length: "length (prepared (snd (clear self))) \<le> length (prepared self)"
  by (simp add: clear_def)

lemma clear_fixed: "prepared_max (snd (clear self)) = prepared_max self"
  by (simp add: clear_def)

lemma pm_rotate_bound:
  assumes "pm_rotate self = Inr (cmd, self')"
  shows "prepared_max self' = prepared_max self
         \<and> prepared_idx self' = prepared_idx self
         \<and> int (length (prepared self')) \<le> max (prepared_max self) (int (length (prepared self)) - 1)"
  using assms
  by (auto simp: pm_rotate_def od_popitem_first_def split: if_splits list.splits Value.splits)

lemma od_del_length: "od_del k xs = Inr d \<Longrightarrow> length d < length xs"
  using length_od_remove [of xs k]
  by (auto simp: od_del_def od_contains_def split: if_splits)

lemma validate_bound:
  assumes "validate k prep name results self = Inr (cmd, self')" and "0 \<le> prepared_max self"
  shows "prepared_max self' = prepared_max self
         \<and> int (length (prepared self')) \<le> max (prepared_max self) (int (length (prepared self)) - 1)"
proof -
  consider (keep) "should_discard prep results self = (None, self)"
    | (wipe) "should_discard prep results self =
        (Some ''DEALLOCATE ALL'', self\<lparr>prepared := [], prepared_idx := 0\<rparr>)"
    using should_discard_cases [of prep results self] by blast
  then show ?thesis
  proof cases
    case wipe
    then show ?thesis using assms by (auto simp: validate_def)
  next
    case keep
    show ?thesis
    proof (cases "check_results results")
      case True
      then have "pm_rotate self = Inr (cmd, self')"
        using assms(1) keep by (simp add: validate_def)
      from pm_rotate_bound [OF this] show ?thesis by simp
    next
      case False
      then obtain d where d: "od_del k (prepared self) = Inr d" "self' = self\<lparr>prepared := d\<rparr>"
        using assms(1) keep by (auto simp: validate_def split: sum.splits)
      from od_del_length [OF d(1)] d(2) show ?thesis by auto
    qed
  qed
qed

lemma exec_call_bound:
  assumes "exec_call c self = Inr (out, self')" and "0 \<le> prepared_max self"
    and "int (length (prepared self)) \<le> prepared_max self + int p"
  shows "prepared_max self' = prepared_max self
         \<and> int (length (prepared self')) \<le> prepared_max self + int (pending [c] p)"
proof (cases c)
  case (Get q prepare)
  then have "self' = snd (get q prepare self)" using assms(1) by (auto split: prod.splits)
  then show ?thesis using Get assms(3) get_prepared [of q prepare self] get_fixed [of q prepare self]
    by simp
next
  case (MaybeAdd q prep name)
  then have "self' = snd (maybe_add_to_cache q prep name self)"
    using assms(1) by (auto split: prod.splits)
  then show ?thesis
    using MaybeAdd assms(3) maybe_add_to_cache_length [of q prep name self]
      maybe_add_to_cache_fixed [of q prep name self]
    by simp
next
  case (Validate k prep name results)
  then obtain cmd where "validate k prep name results self = Inr (cmd, self')"
    using assms(1) by (auto split: sum.splits prod.splits)
  from validate_bound [OF this assms(2)] Validate assms(3) show ?thesis
    by (cases p) auto
next
  case Clear
  then have "self' = snd (clear self)" using assms(1) by (auto split: prod.splits)
  then show ?thesis using Clear assms(3) clear_length [of self] clear_fixed [of self] by simp
qed

lemma pending_step: "pending (c # cs) p = pending cs (pending [c] p)"
  by (cases c) simp_all

text \<open>
  C2, as the code has it. \<open>maybe_add_to_cache\<close> inserts without evicting and only
  \<open>validate\<close> evicts, one entry at a time. So, for a maximum that is not negative, after
  any sequence of calls that raises no exception the cache holds at most
  \<open>prepared_max\<close> entries plus the number of \<open>maybe_add_to_cache\<close> calls not yet
  followed by a \<open>validate\<close>: the bound \<open>prepared_max\<close> holds once every recorded
  statement has been validated, not between the two calls.
\<close>

theorem cache_size_bound:
  assumes "run cs self = Inr (outs, self')" and "0 \<le> prepared_max self"
    and "int (length (prepared self)) \<le> prepared_max self + int p"
  shows "int (length (prepared self')) \<le> prepared_max self + int (pending cs p)"
  using assms
proof (induction cs arbitrary: self outs p)
  case Nil
  then show ?case by simp
next
  case (Cons c cs)
  from Cons.prems(1) obtain out self1 outs1 where
    c: "exec_call c self = Inr (out, self1)" and r: "run cs self1 = Inr (outs1, self')"
    by (auto split: sum.splits prod.splits)
  from exec_call_bound [OF c Cons.prems(2,3)] have
    m: "prepared_max self1 = prepared_max self"
    and b: "int (length (prepared self1)) \<le> prepared_max self1 + int (pending [c] p)" by simp_all
  from Cons.IH [OF r _ b] m Cons.prems(2) show ?case
    by (simp add: pending_step [of c cs p])
qed

theorem cache_size_bound_witness:
  "run [MaybeAdd \<lparr>query = ''select 1'', types = []\<rparr> NO [],
        MaybeAdd \<lparr>query = ''select 2'', types = []\<rparr> NO [],
        Validate (''select 1'', []) NO [] [\<lparr>status = TUPLES_OK, command_status = None\<rparr>],
        Validate (''select 2'', []) NO [] [\<lparr>status = TUPLES_OK, command_status = None\<rparr>]]
       (init (Some 5) 1)
   = Inr ([Added (Some (''select 1'', [])), Added (Some (''select 2'', [])), Directive None,
           Directive None],
          \<lparr>prepare_threshold = Some 5, prepared_max = 1,
           prepared = [((''select 2'', []), Count 1)], prepared_idx = 0\<rparr>)
   \<and> int (length (prepared
        \<lparr>prepare_threshold = Some 5, prepared_max = 1,
         prepared = [((''select 2'', []), Count 1)], prepared_idx = 0\<rparr>))
      \<le> prepared_max (init (Some 5) 1) +
        int (pending
          [MaybeAdd \<lparr>query = ''select 1'', types = []\<rparr> NO [],
           MaybeAdd \<lparr>query = ''select 2'', types = []\<rparr> NO [],
           Validate (''select 1'', []) NO [] [\<lparr>status = TUPLES_OK, command_status = None\<rparr>],
           Validate (''select 2'', []) NO [] [\<lparr>status = TUPLES_OK, command_status = None\<rparr>]]
          0)"
proof -
  have r: "run [MaybeAdd \<lparr>query = ''select 1'', types = []\<rparr> NO [],
        MaybeAdd \<lparr>query = ''select 2'', types = []\<rparr> NO [],
        Validate (''select 1'', []) NO [] [\<lparr>status = TUPLES_OK, command_status = None\<rparr>],
        Validate (''select 2'', []) NO [] [\<lparr>status = TUPLES_OK, command_status = None\<rparr>]]
       (init (Some 5) 1)
   = Inr ([Added (Some (''select 1'', [])), Added (Some (''select 2'', [])), Directive None,
           Directive None],
          \<lparr>prepare_threshold = Some 5, prepared_max = 1,
           prepared = [((''select 2'', []), Count 1)], prepared_idx = 0\<rparr>)"
    by (simp add: init_def maybe_add_to_cache_def key_def validate_def should_discard_def
        discards_def check_results_def pm_rotate_def od_popitem_first_def)
  have m: "0 \<le> prepared_max (init (Some 5) 1)" by (simp add: init_def)
  have b: "int (length (prepared (init (Some 5) 1))) \<le> prepared_max (init (Some 5) 1) + int 0"
    by (simp add: init_def)
  from r cache_size_bound [OF r m b] show ?thesis by (rule conjI)
qed

text \<open>
  C2 as stated fails: with a maximum of 1, two \<open>maybe_add_to_cache\<close> calls for two
  queries leave two entries in the cache.
\<close>

theorem cache_overflow_counterexample:
  "run [MaybeAdd \<lparr>query = ''select 1'', types = []\<rparr> NO [],
        MaybeAdd \<lparr>query = ''select 2'', types = []\<rparr> NO []]
       (init (Some 5) 1)
   = Inr ([Added (Some (''select 1'', [])), Added (Some (''select 2'', []))],
          \<lparr>prepare_threshold = Some 5, prepared_max = 1,
           prepared = [((''select 1'', []), Count 1), ((''select 2'', []), Count 1)],
           prepared_idx = 0\<rparr>)"
  by code_simp

subsection \<open>Statement names\<close>

lemma digit_char_inj: "d < 10 \<Longrightarrow> e < 10 \<Longrightarrow> digit_char d = digit_char e \<Longrightarrow> d = e"
  unfolding digit_char_def
  by (subst (asm) nth_eq_iff_index_eq) simp_all

lemma decimal_nonempty: "decimal n \<noteq> []"
  by (subst decimal.simps) simp

lemma decimal_inj: "decimal m = decimal n \<Longrightarrow> m = n"
proof (induction m arbitrary: n rule: decimal.induct)
  case (1 m)
  show ?case
  proof (cases "m < 10")
    case True
    then have m: "decimal m = [digit_char m]" by (subst decimal.simps) simp
    show ?thesis
    proof (cases "n < 10")
      case n: True
      then have "decimal n = [digit_char n]" by (subst decimal.simps) simp
      with m "1.prems" True n show ?thesis by (simp add: digit_char_inj)
    next
      case False
      then have "decimal n = decimal (n div 10) @ [digit_char (n mod 10)]"
        by (subst decimal.simps) simp
      with m "1.prems" decimal_nonempty [of "n div 10"] show ?thesis by simp
    qed
  next
    case False
    then have m: "decimal m = decimal (m div 10) @ [digit_char (m mod 10)]"
      by (subst decimal.simps) simp
    show ?thesis
    proof (cases "n < 10")
      case True
      then have "decimal n = [digit_char n]" by (subst decimal.simps) simp
      with m "1.prems" decimal_nonempty [of "m div 10"] show ?thesis by simp
    next
      case n: False
      then have "decimal n = decimal (n div 10) @ [digit_char (n mod 10)]"
        by (subst decimal.simps) simp
      with m "1.prems" have e: "decimal (m div 10) = decimal (n div 10)"
        and d: "digit_char (m mod 10) = digit_char (n mod 10)" by simp_all
      from "1.IH" [OF False e] have "m div 10 = n div 10" .
      moreover from d have "m mod 10 = n mod 10" by (simp add: digit_char_inj)
      ultimately show ?thesis by (metis div_mult_mod_eq)
    qed
  qed
qed

lemma stmt_name_inj: "inj stmt_name"
  by (rule injI) (simp add: stmt_name_def decimal_inj)

lemma get_idx:
  assumes "get q prepare self = ((prep, name), self')"
  shows "(prep = SHOULD \<longrightarrow> name = stmt_name (prepared_idx self)
            \<and> prepared_idx self' = prepared_idx self + 1)
         \<and> (prep \<noteq> SHOULD \<longrightarrow> prepared_idx self' = prepared_idx self)"
  using assms by (auto simp: get_def split: option.splits Value.splits if_splits)

lemma validate_idx:
  assumes "validate k prep name results self = Inr (cmd, self')"
    and "cmd \<noteq> Some ''DEALLOCATE ALL''"
  shows "prepared_idx self' = prepared_idx self"
proof -
  have keep: "should_discard prep results self = (None, self)"
    using should_discard_cases [of prep results self] assms by (auto simp: validate_def)
  show ?thesis
  proof (cases "check_results results")
    case True
    then have "pm_rotate self = Inr (cmd, self')" using assms(1) keep by (simp add: validate_def)
    from pm_rotate_bound [OF this] show ?thesis by simp
  next
    case False
    then show ?thesis using assms(1) keep by (auto simp: validate_def split: sum.splits)
  qed
qed

lemma exec_call_idx:
  assumes "exec_call c self = Inr (out, self')" and "out \<noteq> Directive (Some ''DEALLOCATE ALL'')"
  shows "prepared_idx self \<le> prepared_idx self'
         \<and> names_of [out] = map stmt_name [prepared_idx self ..< prepared_idx self']"
proof (cases c)
  case (Get q prepare)
  then obtain prep name where g: "get q prepare self = ((prep, name), self')"
    and o: "out = Decision prep name"
    using assms(1) by (auto split: prod.splits)
  from get_idx [OF g] o show ?thesis by (cases prep) simp_all
next
  case (MaybeAdd q prep name)
  then have "self' = snd (maybe_add_to_cache q prep name self)" and "\<exists>k. out = Added k"
    using assms(1) by (auto split: prod.splits)
  then show ?thesis using maybe_add_to_cache_fixed [of q prep name self] by auto
next
  case (Validate k prep name results)
  then obtain cmd where v: "validate k prep name results self = Inr (cmd, self')"
    and o: "out = Directive cmd"
    using assms(1) by (auto split: sum.splits prod.splits)
  from validate_idx [OF v] o assms(2) show ?thesis by simp
next
  case Clear
  then show ?thesis using assms by (auto simp: clear_def split: if_splits)
qed

lemma names_of_Cons: "names_of (out # outs) = names_of [out] @ names_of outs"
  by (cases "(out # outs)" rule: names_of.cases) simp_all

lemma run_names:
  assumes "run cs self = Inr (outs, self')"
    and "Directive (Some ''DEALLOCATE ALL'') \<notin> set outs"
  shows "prepared_idx self \<le> prepared_idx self'
         \<and> names_of outs = map stmt_name [prepared_idx self ..< prepared_idx self']"
  using assms
proof (induction cs arbitrary: self outs)
  case Nil
  then show ?case by simp
next
  case (Cons c cs)
  from Cons.prems(1) obtain out self1 outs1 where
    c: "exec_call c self = Inr (out, self1)" and r: "run cs self1 = Inr (outs1, self')"
    and o: "outs = out # outs1"
    by (auto split: sum.splits prod.splits)
  from o Cons.prems(2) have n1: "out \<noteq> Directive (Some ''DEALLOCATE ALL'')"
    and n2: "Directive (Some ''DEALLOCATE ALL'') \<notin> set outs1" by auto
  from exec_call_idx [OF c n1] have
    a: "prepared_idx self \<le> prepared_idx self1"
    and b: "names_of [out] = map stmt_name [prepared_idx self ..< prepared_idx self1]" by simp_all
  from Cons.IH [OF r n2] have
    a': "prepared_idx self1 \<le> prepared_idx self'"
    and b': "names_of outs1 = map stmt_name [prepared_idx self1 ..< prepared_idx self']" by simp_all
  have "[prepared_idx self ..< prepared_idx self'] =
        [prepared_idx self ..< prepared_idx self1] @ [prepared_idx self1 ..< prepared_idx self']"
    using a a' by (metis le_Suc_ex upt_add_eq_append)
  then show ?case using a a' b b' o by (simp add: names_of_Cons [of out outs1])
qed

text \<open>
  C4, as the code has it. In a sequence of calls that raises no exception and in which no
  \<open>DEALLOCATE ALL\<close> is returned, the names handed out by \<open>get\<close> are
  \<open>_pg3_<index>\<close> for the consecutive values of the counter, from its value before the
  sequence up to its value after it, each index in decimal: they are pairwise distinct.
  (A clear that returns \<open>DEALLOCATE ALL\<close> resets the counter to 0.)
\<close>

theorem names_distinct:
  assumes "run cs self = Inr (outs, self')"
    and "Directive (Some ''DEALLOCATE ALL'') \<notin> set outs"
  shows "names_of outs = map stmt_name [prepared_idx self ..< prepared_idx self']
         \<and> distinct (names_of outs)
         \<and> (stmt_name i = stmt_name j \<longleftrightarrow> i = j)
         \<and> stmt_name i = ''_pg3_'' @ decimal i"
proof -
  from run_names [OF assms] have
    n: "names_of outs = map stmt_name [prepared_idx self ..< prepared_idx self']" by simp
  have "distinct (map stmt_name [prepared_idx self ..< prepared_idx self'])"
    using stmt_name_inj by (simp add: distinct_map inj_on_def inj_def)
  with n show ?thesis using stmt_name_inj by (auto simp: inj_def stmt_name_def)
qed

theorem names_distinct_witness:
  "run [Get \<lparr>query = ''select 1'', types = []\<rparr> (Some True),
        MaybeAdd \<lparr>query = ''select 1'', types = []\<rparr> SHOULD ''_pg3_0'',
        Get \<lparr>query = ''select 2'', types = []\<rparr> (Some True)]
       (init (Some 5) 100)
   = Inr ([Decision SHOULD ''_pg3_0'', Added (Some (''select 1'', [])),
           Decision SHOULD ''_pg3_1''],
          \<lparr>prepare_threshold = Some 5, prepared_max = 100,
           prepared = [((''select 1'', []), Name ''_pg3_0'')], prepared_idx = 2\<rparr>)
   \<and> distinct (names_of [Decision SHOULD ''_pg3_0'', Added (Some (''select 1'', [])),
           Decision SHOULD ''_pg3_1''])"
proof -
  have r: "run [Get \<lparr>query = ''select 1'', types = []\<rparr> (Some True),
        MaybeAdd \<lparr>query = ''select 1'', types = []\<rparr> SHOULD ''_pg3_0'',
        Get \<lparr>query = ''select 2'', types = []\<rparr> (Some True)]
       (init (Some 5) 100)
   = Inr ([Decision SHOULD ''_pg3_0'', Added (Some (''select 1'', [])),
           Decision SHOULD ''_pg3_1''],
          \<lparr>prepare_threshold = Some 5, prepared_max = 100,
           prepared = [((''select 1'', []), Name ''_pg3_0'')], prepared_idx = 2\<rparr>)"
    by (simp add: init_def get_def maybe_add_to_cache_def key_def stmt_name_def decimal.simps
        digit_char_def)
  have n: "Directive (Some ''DEALLOCATE ALL'') \<notin> set [Decision SHOULD ''_pg3_0'',
      Added (Some (''select 1'', [])), Decision SHOULD ''_pg3_1'']"
    by simp
  from names_distinct [OF r n] have
    "distinct (names_of [Decision SHOULD ''_pg3_0'', Added (Some (''select 1'', [])),
           Decision SHOULD ''_pg3_1''])"
    by blast
  with r show ?thesis by (rule conjI)
qed

text \<open>
  C4 as stated fails across a clear: the name \<open>_pg3_0\<close> is handed out again after
  \<open>clear\<close> has reset the counter.
\<close>

theorem names_reused_counterexample:
  "run [Get \<lparr>query = ''select 1'', types = []\<rparr> (Some True),
        Clear,
        Get \<lparr>query = ''select 1'', types = []\<rparr> (Some True)]
       (init (Some 5) 100)
   = Inr ([Decision SHOULD ''_pg3_0'', Directive (Some ''DEALLOCATE ALL''),
           Decision SHOULD ''_pg3_0''],
          \<lparr>prepare_threshold = Some 5, prepared_max = 100, prepared = [], prepared_idx = 1\<rparr>)"
  by code_simp

subsection \<open>Recency and eviction\<close>

lemma filter_absent: "map_of xs k = None \<Longrightarrow> filter (\<lambda>k'. k' \<noteq> k) (map fst xs) = map fst xs"
  by (induction xs) (auto split: if_splits)

lemma maybe_add_to_cache_keys:
  assumes "prepare_threshold self \<noteq> None"
  shows "map fst (prepared (snd (maybe_add_to_cache q prep name self))) =
         filter (\<lambda>k. k \<noteq> key q) (map fst (prepared self)) @ [key q]"
proof (cases "map_of (prepared self) (key q)")
  case None
  then show ?thesis using assms
    by (auto simp: maybe_add_to_cache_def od_set_absent filter_absent)
next
  case (Some old)
  have "map fst (od_move_to_end (key q) (od_set (key q) v (prepared self))) =
        filter (\<lambda>k. k \<noteq> key q) (map fst (prepared self)) @ [key q]" for v
    using od_move_to_end_keys [of "od_set (key q) v (prepared self)" "key q" v]
      od_set_keys [OF Some, of v]
    by (simp add: map_of_od_set)
  then show ?thesis using assms Some od_move_to_end_keys [OF Some]
    by (cases old) (auto simp: maybe_add_to_cache_def)
qed

lemma pm_rotate_evicts_first:
  assumes "prepared_max self < int (length (prepared self))" and "prepared self \<noteq> []"
  shows "\<exists>cmd. pm_rotate self = Inr (cmd, self\<lparr>prepared := tl (prepared self)\<rparr>)"
  using assms
  by (cases "prepared self")
     (auto simp: pm_rotate_def od_popitem_first_def split: Value.splits)

text \<open>
  C5, as the code has it. \<open>get\<close> never reorders the cache, hit or miss. Recency is
  refreshed by \<open>maybe_add_to_cache\<close> only: when the cache is enabled it puts the key of
  its query last and keeps the order of all other keys. \<open>_rotate\<close>, when the cache is
  over its maximum, removes the first entry, that is the key recorded least recently.
\<close>

theorem recency_order:
  "prepared (snd (get q prepare self)) = prepared self
   \<and> (prepare_threshold self \<noteq> None \<longrightarrow>
        map fst (prepared (snd (maybe_add_to_cache q prep name self))) =
        filter (\<lambda>k. k \<noteq> key q) (map fst (prepared self)) @ [key q])
   \<and> (prepared_max self < int (length (prepared self)) \<longrightarrow> prepared self \<noteq> [] \<longrightarrow>
        (\<exists>cmd. pm_rotate self = Inr (cmd, self\<lparr>prepared := tl (prepared self)\<rparr>)))"
  using get_prepared maybe_add_to_cache_keys pm_rotate_evicts_first by blast

theorem recency_order_witness:
  "map fst (prepared (snd (maybe_add_to_cache \<lparr>query = ''select 1'', types = []\<rparr> YES ''_pg3_0''
      \<lparr>prepare_threshold = Some 5, prepared_max = 1,
       prepared = [((''select 1'', []), Name ''_pg3_0''), ((''select 2'', []), Count 1)],
       prepared_idx = 1\<rparr>)))
   = [(''select 2'', []), (''select 1'', [])]
   \<and> (\<exists>cmd. pm_rotate
      \<lparr>prepare_threshold = Some 5, prepared_max = 1,
       prepared = [((''select 1'', []), Name ''_pg3_0''), ((''select 2'', []), Count 1)],
       prepared_idx = 1\<rparr>
     = Inr (cmd, \<lparr>prepare_threshold = Some 5, prepared_max = 1,
       prepared = [((''select 2'', []), Count 1)], prepared_idx = 1\<rparr>))"
  using recency_order [of "\<lparr>query = ''select 1'', types = []\<rparr>" None
      "\<lparr>prepare_threshold = Some 5, prepared_max = 1,
       prepared = [((''select 1'', []), Name ''_pg3_0''), ((''select 2'', []), Count 1)],
       prepared_idx = 1\<rparr>" YES "''_pg3_0''"]
  by (simp add: key_def)

text \<open>
  C5 as stated fails: the entry of \<open>select 1\<close> is read by \<open>get\<close> (a hit, answered
  \<open>YES\<close>) right before the rotation, and it is the one evicted.
\<close>

theorem read_hit_evicted_counterexample:
  "run [Get \<lparr>query = ''select 1'', types = []\<rparr> (Some True),
        MaybeAdd \<lparr>query = ''select 1'', types = []\<rparr> SHOULD ''_pg3_0'',
        MaybeAdd \<lparr>query = ''select 2'', types = []\<rparr> NO [],
        Get \<lparr>query = ''select 1'', types = []\<rparr> None,
        Validate (''select 2'', []) NO [] [\<lparr>status = TUPLES_OK, command_status = None\<rparr>]]
       (init (Some 5) 1)
   = Inr ([Decision SHOULD ''_pg3_0'', Added (Some (''select 1'', [])),
           Added (Some (''select 2'', [])), Decision YES ''_pg3_0'',
           Directive (Some ''DEALLOCATE _pg3_0'')],
          \<lparr>prepare_threshold = Some 5, prepared_max = 1,
           prepared = [((''select 2'', []), Count 1)], prepared_idx = 1\<rparr>)"
  by code_simp

subsection \<open>Clearing\<close>

text \<open>
  C7, as the code has it. \<open>clear\<close> does not look at what is prepared on the server, nor
  at the cache: it tests the name counter. Starting from a manager whose counter is 0 (a
  new one, or one just cleared) and through any sequence of calls that raises no exception
  and returns no \<open>DEALLOCATE ALL\<close>, \<open>clear\<close> returns \<open>DEALLOCATE ALL\<close> exactly when
  \<open>get\<close> has handed out a statement name in that sequence, and then empties the cache
  and resets the counter; otherwise it returns nothing and changes nothing. In any state,
  a second \<open>clear\<close> right after a first one returns nothing.
\<close>

theorem clear_directive:
  assumes "run cs self = Inr (outs, self')" and "prepared_idx self = 0"
    and "Directive (Some ''DEALLOCATE ALL'') \<notin> set outs"
  shows "fst (clear self') = (if names_of outs = [] then None else Some ''DEALLOCATE ALL'')
         \<and> (names_of outs \<noteq> [] \<longrightarrow> prepared (snd (clear self')) = []
               \<and> prepared_idx (snd (clear self')) = 0)
         \<and> (names_of outs = [] \<longrightarrow> snd (clear self') = self')
         \<and> fst (clear (snd (clear s))) = None"
proof -
  from run_names [OF assms(1,3)] assms(2)
  have "names_of outs = map stmt_name [0 ..< prepared_idx self']" by simp
  then have "names_of outs = [] \<longleftrightarrow> prepared_idx self' = 0" by simp
  then show ?thesis by (simp add: clear_def)
qed

theorem clear_directive_witness:
  "fst (clear \<lparr>prepare_threshold = Some 5, prepared_max = 100, prepared = [],
        prepared_idx = 1\<rparr>) = Some ''DEALLOCATE ALL''
   \<and> fst (clear (snd (clear \<lparr>prepare_threshold = Some 5, prepared_max = 100, prepared = [],
        prepared_idx = 1\<rparr>))) = None"
proof -
  have r: "run [Get \<lparr>query = ''select 1'', types = []\<rparr> (Some True)] (init (Some 5) 100)
      = Inr ([Decision SHOULD ''_pg3_0''],
          \<lparr>prepare_threshold = Some 5, prepared_max = 100, prepared = [], prepared_idx = 1\<rparr>)"
    by (simp add: init_def get_def key_def stmt_name_def decimal.simps digit_char_def)
  have i: "prepared_idx (init (Some 5) 100) = 0" by (simp add: init_def)
  have n: "Directive (Some ''DEALLOCATE ALL'') \<notin> set [Decision SHOULD ''_pg3_0'']" by simp
  from clear_directive [OF r i n,
      of "\<lparr>prepare_threshold = Some 5, prepared_max = 100, prepared = [], prepared_idx = 1\<rparr>"]
  show ?thesis by simp
qed

text \<open>
  C7 as stated fails: the only statement ever named failed on the server and its entry
  was dropped by \<open>validate\<close>, so nothing is prepared and the cache is empty, yet
  \<open>clear\<close> returns \<open>DEALLOCATE ALL\<close>.
\<close>

theorem clear_directive_counterexample:
  "run [Get \<lparr>query = ''select 1'', types = []\<rparr> (Some True),
        MaybeAdd \<lparr>query = ''select 1'', types = []\<rparr> SHOULD ''_pg3_0'',
        Validate (''select 1'', []) SHOULD ''_pg3_0''
          [\<lparr>status = FATAL_ERROR, command_status = None\<rparr>]]
       (init (Some 5) 100)
   = Inr ([Decision SHOULD ''_pg3_0'', Added (Some (''select 1'', [])), Directive None],
          \<lparr>prepare_threshold = Some 5, prepared_max = 100, prepared = [], prepared_idx = 1\<rparr>)
   \<and> clear \<lparr>prepare_threshold = Some 5, prepared_max = 100, prepared = [], prepared_idx = 1\<rparr>
     = (Some ''DEALLOCATE ALL'',
        \<lparr>prepare_threshold = Some 5, prepared_max = 100, prepared = [], prepared_idx = 0\<rparr>)"
  by (simp add: init_def get_def key_def stmt_name_def decimal.simps digit_char_def
      maybe_add_to_cache_def validate_def should_discard_def discards_def check_results_def
      od_del_def od_contains_def od_remove_def clear_def)

section \<open>Properties of the adapters for textual types\<close>

subsection \<open>UTF-8 encoding and decoding\<close>

lemma utf8_encode_cp_bytes: "utf8_encode_cp c = Some bs \<Longrightarrow> list_all (\<lambda>b. b < 256) bs"
  by (auto simp: utf8_encode_cp_def split: if_splits)

lemma utf8_encode_cp_total: "c < 0x110000 \<Longrightarrow> \<not> is_surrogate c \<Longrightarrow> utf8_encode_cp c \<noteq> None"
  by (simp add: utf8_encode_cp_def)

lemma decode1:
  "b0 < 0x80 \<Longrightarrow> utf8_decode_nat (b0 # r) = map_option ((#) b0) (utf8_decode_nat r)"
  by simp

lemma decode2:
  assumes "2 \<le> a" "a < 32" "b < 64"
  shows "utf8_decode_nat ((0xC0 + a) # (0x80 + b) # r)
         = map_option ((#) (a * 64 + b)) (utf8_decode_nat r)"
  using assms by (simp add: is_cont_def)

lemma decode3:
  assumes "a < 16" "b < 64" "d < 64" "0x800 \<le> a * 4096 + b * 64 + d"
    "\<not> is_surrogate (a * 4096 + b * 64 + d)"
  shows "utf8_decode_nat ((0xE0 + a) # (0x80 + b) # (0x80 + d) # r)
         = map_option ((#) (a * 4096 + b * 64 + d)) (utf8_decode_nat r)"
  using assms by (simp add: is_cont_def)

lemma decode4:
  assumes "a < 5" "b < 64" "d < 64" "e < 64" "0x10000 \<le> a * 262144 + b * 4096 + d * 64 + e"
    "a * 262144 + b * 4096 + d * 64 + e < 0x110000"
  shows "utf8_decode_nat ((0xF0 + a) # (0x80 + b) # (0x80 + d) # (0x80 + e) # r)
         = map_option ((#) (a * 262144 + b * 4096 + d * 64 + e)) (utf8_decode_nat r)"
  using assms by (simp add: is_cont_def)


lemma split2: "(c::nat) div 64 * 64 + c mod 64 = c"
  by simp

lemma distrib64: "(x::nat) * 4096 + y * 64 = (x * 64 + y) * 64"
  by simp

lemma distrib4096: "(x::nat) * 262144 + y * 4096 = (x * 64 + y) * 4096"
  by simp

lemma split3: "(c::nat) div 4096 * 4096 + c div 64 mod 64 * 64 + c mod 64 = c"
proof -
  have d: "c div 4096 = c div 64 div 64" by (simp add: div_mult2_eq [symmetric])
  have "c div 64 div 64 * 4096 + c div 64 mod 64 * 64
      = (c div 64 div 64 * 64 + c div 64 mod 64) * 64"
    by (rule distrib64)
  also have "\<dots> = c div 64 * 64" by (simp only: div_mult_mod_eq)
  finally have "c div 4096 * 4096 + c div 64 mod 64 * 64 = c div 64 * 64"
    by (simp only: d)
  then show ?thesis by (simp only: div_mult_mod_eq)
qed

lemma split4:
  "(c::nat) div 262144 * 262144 + c div 4096 mod 64 * 4096 + c div 64 mod 64 * 64 + c mod 64 = c"
proof -
  have d: "c div 262144 = c div 4096 div 64" by (simp add: div_mult2_eq [symmetric])
  have "c div 4096 div 64 * 262144 + c div 4096 mod 64 * 4096
      = (c div 4096 div 64 * 64 + c div 4096 mod 64) * 4096"
    by (rule distrib4096)
  also have "\<dots> = c div 4096 * 4096" by (simp only: div_mult_mod_eq)
  finally have "c div 262144 * 262144 + c div 4096 mod 64 * 4096 = c div 4096 * 4096"
    by (simp only: d)
  then show ?thesis by (simp only: split3)
qed

lemma utf8_decode_encode_cp:
  assumes "utf8_encode_cp c = Some bs"
  shows "utf8_decode_nat (bs @ r) = map_option ((#) c) (utf8_decode_nat r)"
proof -
  consider (one) "c < 0x80" | (two) "0x80 \<le> c" "c < 0x800"
    | (three) "0x800 \<le> c" "c < 0x10000" "\<not> is_surrogate c"
    | (four) "0x10000 \<le> c" "c < 0x110000"
    using assms by (auto simp: utf8_encode_cp_def split: if_splits)
  then show ?thesis
  proof cases
    case one
    then have "bs = [c]" using assms by (simp add: utf8_encode_cp_def)
    then show ?thesis using decode1 [OF one] by simp
  next
    case two
    then have bs: "bs = [0xC0 + c div 64, 0x80 + c mod 64]"
      using assms by (simp add: utf8_encode_cp_def)
    have "2 \<le> c div 64" "c div 64 < 32" "c mod 64 < 64" using two by simp_all
    from decode2 [OF this, of r] show ?thesis unfolding bs by (simp add: split2)
  next
    case three
    then have bs: "bs = [0xE0 + c div 4096, 0x80 + (c div 64) mod 64, 0x80 + c mod 64]"
      using assms by (simp add: utf8_encode_cp_def)
    have "c div 4096 < 16" "c div 64 mod 64 < 64" "c mod 64 < 64" using three by simp_all
    from decode3 [OF this, of r] three show ?thesis unfolding bs split3 by simp
  next
    case four
    then have bs: "bs = [0xF0 + c div 262144, 0x80 + (c div 4096) mod 64,
        0x80 + (c div 64) mod 64, 0x80 + c mod 64]"
      using assms by (simp add: utf8_encode_cp_def)
    have "c div 262144 < 5" "c div 4096 mod 64 < 64" "c div 64 mod 64 < 64" "c mod 64 < 64"
      using four by simp_all
    from decode4 [OF this, of r] four show ?thesis unfolding bs split4 by simp
  qed
qed

lemma utf8_encode_nat_bytes: "utf8_encode_nat s = Some bs \<Longrightarrow> list_all (\<lambda>b. b < 256) bs"
proof (induction s arbitrary: bs)
  case Nil
  then show ?case by simp
next
  case (Cons c s)
  then show ?case
    by (auto split: option.splits dest: utf8_encode_cp_bytes)
qed

lemma utf8_encode_nat_total:
  "is_str s \<Longrightarrow> \<not> list_ex is_surrogate s \<Longrightarrow> utf8_encode_nat s \<noteq> None"
proof (induction s)
  case Nil
  then show ?case by simp
next
  case (Cons c s)
  then show ?case using utf8_encode_cp_total [of c]
    by (auto simp: is_str_def split: option.splits)
qed

lemma utf8_decode_encode_nat: "utf8_encode_nat s = Some bs \<Longrightarrow> utf8_decode_nat bs = Some s"
proof (induction s arbitrary: bs)
  case Nil
  then show ?case by simp
next
  case (Cons c s)
  then obtain b r where b: "utf8_encode_cp c = Some b" and r: "utf8_encode_nat s = Some r"
    and bs: "bs = b @ r"
    by (auto split: option.splits)
  from utf8_decode_encode_cp [OF b, of r] Cons.IH [OF r] bs show ?case by simp
qed

lemma of_char_char_of_list:
  "list_all (\<lambda>b. b < 256) bs \<Longrightarrow> map of_char (map char_of bs :: char list) = (bs :: nat list)"
  by (induction bs) simp_all

lemma utf8_roundtrip:
  assumes "is_str s" and "\<not> list_ex is_surrogate s"
  shows "\<exists>b. utf8_encode s = Inr b \<and> utf8_decode b = Inr s"
proof -
  from utf8_encode_nat_total [OF assms] obtain bs where bs: "utf8_encode_nat s = Some bs"
    by auto
  have "utf8_decode (map char_of bs) = Inr s"
    using utf8_decode_encode_nat [OF bs] of_char_char_of_list [OF utf8_encode_nat_bytes [OF bs]]
    by (simp add: utf8_decode_def)
  then show ?thesis using bs by (simp add: utf8_encode_def)
qed

subsection \<open>Latin-1, and the encoding shared by dumper and loader\<close>



subsection \<open>Strings with a NUL character\<close>




subsection \<open>The ascii sentinel\<close>

text \<open>
  C10, as the code has it. On a connection whose client encoding is the sentinel
  \<open>ascii\<close>, both string dumpers keep the encoding \<open>utf-8\<close> and never use the ASCII
  codec: the binary dumper returns what UTF-8 encoding of the string returns, the text
  dumper too once the string has passed its NUL check. So dumping a non-ASCII string
  gives its UTF-8 bytes when the string has no surrogate (and, for the text dumper, no NUL
  character). The text loaders of the same connection return the buffer undecoded.
\<close>

theorem ascii_sentinel_dump:
  assumes "client_encoding c = ''ascii''" and "reg ''utf-8'' = Some utf8_codec"
  shows "StrDumper_init (Some c) = ''utf-8''
         \<and> StrBinaryDumper_dump reg (StrDumper_init (Some c)) s = utf8_encode s
         \<and> StrDumper_dump reg (StrDumper_init (Some c)) s
             = (if 0 \<in> set s then Inl DataError else utf8_encode s)
         \<and> (is_str s \<and> \<not> list_ex is_surrogate s \<longrightarrow>
              (\<exists>b. utf8_encode s = Inr b
                 \<and> StrBinaryDumper_dump reg (StrDumper_init (Some c)) s = Inr b
                 \<and> (0 \<notin> set s \<longrightarrow> StrDumper_dump reg (StrDumper_init (Some c)) s = Inr b)))
         \<and> TextLoader_load reg (TextLoader_init (Some c)) data = Inr (Raw data)
         \<and> TextBinaryLoader_load reg (TextLoader_init (Some c)) data = Inr (Raw data)"
  using assms utf8_roundtrip [of s]
  by (auto simp: StrDumper_init_def StrBinaryDumper_dump_def StrDumper_dump_def str_encode_def
      utf8_codec_def TextLoader_init_def TextLoader_load_def TextBinaryLoader_load_def)

theorem ascii_sentinel_dump_witness:
  "StrBinaryDumper_dump [''utf-8'' \<mapsto> utf8_codec, ''ascii'' \<mapsto> ascii_codec]
      (StrDumper_init (Some \<lparr>client_encoding = ''ascii''\<rparr>)) [233]
     = Inr [CHR 0xC3, CHR 0xA9]
   \<and> StrDumper_dump [''utf-8'' \<mapsto> utf8_codec, ''ascii'' \<mapsto> ascii_codec]
      (StrDumper_init (Some \<lparr>client_encoding = ''ascii''\<rparr>)) [233]
     = Inr [CHR 0xC3, CHR 0xA9]
   \<and> str_encode [''utf-8'' \<mapsto> utf8_codec, ''ascii'' \<mapsto> ascii_codec] ''ascii'' [233]
     = Inl UnicodeEncodeError
   \<and> TextLoader_load [''utf-8'' \<mapsto> utf8_codec, ''ascii'' \<mapsto> ascii_codec]
        (TextLoader_init (Some \<lparr>client_encoding = ''ascii''\<rparr>))
        (Bytes [CHR 0xC3, CHR 0xA9])
     = Inr (Raw (Bytes [CHR 0xC3, CHR 0xA9]))"
proof -
  have e: "utf8_encode [233] = Inr [CHR 0xC3, CHR 0xA9]"
    by (simp add: utf8_encode_def utf8_encode_cp_def char_of_def bit_0)
  have a: "str_encode [''utf-8'' \<mapsto> utf8_codec, ''ascii'' \<mapsto> ascii_codec] ''ascii'' [233]
      = Inl UnicodeEncodeError"
    by (simp add: str_encode_def ascii_codec_def ascii_encode_def)
  have c: "client_encoding \<lparr>client_encoding = ''ascii''\<rparr> = ''ascii''" by simp
  have r: "[''utf-8'' \<mapsto> utf8_codec, ''ascii'' \<mapsto> ascii_codec] ''utf-8'' = Some utf8_codec"
    by simp
  note t = ascii_sentinel_dump [of "\<lparr>client_encoding = ''ascii''\<rparr>"
      "[''utf-8'' \<mapsto> utf8_codec, ''ascii'' \<mapsto> ascii_codec]" "[233]"
      "Bytes [CHR 0xC3, CHR 0xA9]", OF c r]
  have 1: "StrBinaryDumper_dump [''utf-8'' \<mapsto> utf8_codec, ''ascii'' \<mapsto> ascii_codec]
      (StrDumper_init (Some \<lparr>client_encoding = ''ascii''\<rparr>)) [233] = utf8_encode [233]"
    using t by blast
  have 2: "StrDumper_dump [''utf-8'' \<mapsto> utf8_codec, ''ascii'' \<mapsto> ascii_codec]
      (StrDumper_init (Some \<lparr>client_encoding = ''ascii''\<rparr>)) [233]
      = (if 0 \<in> set [233::nat] then Inl DataError else utf8_encode [233])"
    using t by blast
  have 3: "TextLoader_load [''utf-8'' \<mapsto> utf8_codec, ''ascii'' \<mapsto> ascii_codec]
        (TextLoader_init (Some \<lparr>client_encoding = ''ascii''\<rparr>))
        (Bytes [CHR 0xC3, CHR 0xA9])
      = Inr (Raw (Bytes [CHR 0xC3, CHR 0xA9]))"
    using t by blast
  show ?thesis using 1 2 3 a e by simp
qed

text \<open>
  C10 as stated fails for some non-ASCII strings: with a NUL character the text dumper
  raises a data error, and with a lone surrogate the UTF-8 codec refuses the string.
\<close>

theorem ascii_sentinel_counterexample:
  "StrDumper_dump [''utf-8'' \<mapsto> utf8_codec]
      (StrDumper_init (Some \<lparr>client_encoding = ''ascii''\<rparr>)) [233, 0]
     = Inl DataError
   \<and> StrBinaryDumper_dump [''utf-8'' \<mapsto> utf8_codec]
      (StrDumper_init (Some \<lparr>client_encoding = ''ascii''\<rparr>)) [233, 0xD800]
     = Inl UnicodeEncodeError"
  by (simp add: StrDumper_dump_def StrBinaryDumper_dump_def StrDumper_init_def str_encode_def
      utf8_codec_def utf8_encode_def utf8_encode_cp_def is_surrogate_def)

subsection \<open>Binary bytea\<close>

text \<open>
  C9: the binary bytea dumper and loader both return their argument, so loading what was
  dumped gives the buffer back, for every buffer, the empty one included.
\<close>

theorem bytea_binary_roundtrip:
  "ByteaBinaryLoader_load (BytesBinaryDumper_dump b) = b
   \<and> BytesBinaryDumper_dump b = b \<and> ByteaBinaryLoader_load b = b"
  by (simp add: ByteaBinaryLoader_load_def BytesBinaryDumper_dump_def)

end
